theory Spec2Isabelle
  imports Complex_Main
begin

unbundle bit_operations_syntax

section \<open>Numbers, constants and data\<close>

text \<open>
  The program is \<^verbatim>\<open>js_balls.js\<close>. Its numbers are JavaScript numbers. Coordinates, radii,
  velocities and the window size are embedded as \<^typ>\<open>real\<close>, so \<open>+\<close>, \<open>-\<close>, \<open>*\<close>,
  \<open>Math.abs\<close>, \<open>Math.max\<close>, \<open>Math.sqrt\<close> and the comparisons are the exact ones; rounding
  and the non-finite values (\<open>NaN\<close>, \<open>Infinity\<close>) are outside the embedding, and the one
  place of the program that produces them from finite input (a division by the square
  root of a radius that is not positive) is a \<open>None\<close> of \<open>Circle\<close> below. The strength
  is an integer (\<open>getClickType\<close> adds shifted bits, \<open>INITIAL_STRENGTH\<close> is 1) and is
  embedded as \<^typ>\<open>int\<close>.
\<close>

definition MAX_VELOCITY :: real where
  "MAX_VELOCITY = 3"

definition INITIAL_RADIUS :: real where
  "INITIAL_RADIUS = 10"

definition INITIAL_STRENGTH :: int where
  "INITIAL_STRENGTH = 1"

definition DURATION_RADIUS_SCALING_FACTOR :: real where
  "DURATION_RADIUS_SCALING_FACTOR = 55 / 100"

text \<open>
  What the program does to the page besides its own state: children appended to and
  removed from the \<open>svg\<close> element (by the id of the child) and audio elements played
  (by the id of the audio element). The \<open>setAttribute\<close> calls of \<open>update\<close> copy fields
  of the circle to its element and are never read back; they are not recorded.
\<close>

datatype effect = AppendChild nat | RemoveChild nat | Play string

text \<open>
  A \<open>Circle\<close> object: \<open>html_id\<close> (the closure variable), \<open>collided\<close>, \<open>strength\<close>, and
  the fields of \<open>info\<close>, written \<open>info_cx\<close> for \<open>info.cx\<close> and \<open>velocity_x\<close> for
  \<open>info.velocity.x\<close>.
\<close>

record circle =
  html_id :: nat
  collided :: bool
  strength :: int
  info_cx :: real
  info_cy :: real
  info_r :: real
  velocity_x :: real
  velocity_y :: real

text \<open>
  The closure state of \<open>PlayGround\<close>: \<open>counter\<close> and the array \<open>circles\<close>. An array slot
  emptied by \<open>delete circles[c1]\<close> is \<open>None\<close>: the array keeps its length and the other
  circles keep their indices. \<open>effects\<close> is the page's record of what was done to it,
  oldest first.
\<close>

record playground =
  counter :: nat
  circles :: "circle option list"
  effects :: "effect list"

section \<open>Circle\<close>

definition randomNumberBetween :: "real \<Rightarrow> real \<Rightarrow> real \<Rightarrow> real" where
  \<comment> \<open>the third argument is the value of \<open>Math.random()\<close>, a number in \<open>[0, 1)\<close>\<close>
  "randomNumberBetween lo hi rnd = rnd * (hi - lo) + lo"

text \<open>
  The constructor together with \<open>initialize\<close>, which it calls last. \<open>rnd1\<close> and \<open>rnd2\<close> are
  the two values of \<open>Math.random()\<close> that \<open>initialize\<close> draws. \<open>Math.pow(r, 0.5)\<close> is the
  square root for \<open>r \<ge> 0\<close> and \<open>NaN\<close> for \<open>r < 0\<close>; for \<open>r = 0\<close> the division is by zero.
  In both cases the velocity is not a finite number: \<open>None\<close>.
\<close>

definition Circle :: "real \<Rightarrow> real \<Rightarrow> real \<Rightarrow> int \<Rightarrow> nat \<Rightarrow> real \<Rightarrow> real \<Rightarrow> circle option" where
  "Circle x y radius str hid rnd1 rnd2 =
     (if radius \<le> 0 then None
      else Some \<lparr>html_id = hid, collided = False, strength = str,
                 info_cx = x, info_cy = y, info_r = radius,
                 velocity_x = randomNumberBetween (- MAX_VELOCITY) MAX_VELOCITY rnd1 / sqrt radius,
                 velocity_y = randomNumberBetween (- MAX_VELOCITY) MAX_VELOCITY rnd2 / sqrt radius\<rparr>)"

text \<open>\<open>clientWidth\<close> and \<open>clientHeight\<close> are \<open>document.body.clientWidth\<close> and \<open>clientHeight\<close>
  as read during the call.\<close>

definition checkForWallCollision :: "real \<Rightarrow> real \<Rightarrow> circle \<Rightarrow> circle" where
  "checkForWallCollision clientWidth clientHeight c =
     (let c1 = (if info_cx c + info_r c > clientWidth
                then c\<lparr>velocity_x := - \<bar>velocity_x c\<bar>\<rparr>
                else if info_cx c - info_r c < 0
                then c\<lparr>velocity_x := \<bar>velocity_x c\<bar>\<rparr>
                else c)
      in if info_cy c1 + info_r c1 > clientHeight
         then c1\<lparr>velocity_y := - \<bar>velocity_y c1\<bar>\<rparr>
         else if info_cy c1 - info_r c1 < 0
         then c1\<lparr>velocity_y := \<bar>velocity_y c1\<bar>\<rparr>
         else c1)"

text \<open>\<open>update\<close> returns the circle and the sounds it played.\<close>

definition update :: "real \<Rightarrow> circle \<Rightarrow> circle \<times> effect list" where
  "update time c =
     (let c1 = c\<lparr>info_cx := info_cx c + velocity_x c * time\<rparr>;
          c2 = c1\<lparr>info_cy := info_cy c1 + velocity_y c1 * time\<rparr>
      in if collided c2
         then (if strength c2 > 0
               then (c2\<lparr>strength := strength c2 - 1, collided := False\<rparr>, [Play ''zee-ow''])
               else (c2\<lparr>info_r := max (info_r c2 - 1) 0\<rparr>, []))
         else (c2, []))"

section \<open>PlayGround\<close>

definition getDistance :: "circle \<Rightarrow> circle \<Rightarrow> real" where
  "getDistance c1 c2 =
     (let xDelta = info_cx c1 - info_cx c2;
          yDelta = info_cy c1 - info_cy c2
      in sqrt (xDelta ^ 2 + yDelta ^ 2))"

text \<open>
  \<open>for (k in circles)\<close> visits the indices of the array that hold an element, in
  ascending order. None of the loops below adds an element, and the only deletion is
  of the index being visited, so the indices are those present when the loop starts.
\<close>

definition for_in :: "'a option list \<Rightarrow> nat list" where
  "for_in cs = filter (\<lambda>k. cs ! k \<noteq> None) [0..<length cs]"

definition set_collided :: "nat \<Rightarrow> circle option list \<Rightarrow> circle option list" where
  \<comment> \<open>\<open>circles[k].collided = true\<close>\<close>
  "set_collided k cs =
     (case cs ! k of None \<Rightarrow> cs | Some c \<Rightarrow> cs[k := Some (c\<lparr>collided := True\<rparr>)])"

text \<open>
  The body of the inner loop of \<open>checkForBallCollisions\<close>. Every slot of the array is
  filled by its own \<open>new Circle\<close>, so \<open>circles[c1] !== circles[c2]\<close> is \<open>c1 \<noteq> c2\<close>.
\<close>

definition ball_pair :: "nat \<Rightarrow> circle option list \<Rightarrow> nat \<Rightarrow> circle option list" where
  "ball_pair c1 cs c2 =
     (case (cs ! c1, cs ! c2) of
        (Some a, Some b) \<Rightarrow>
          if c1 \<noteq> c2
          then (if getDistance a b < info_r a + info_r b
                then set_collided c2 (set_collided c1 cs)
                else cs)
          else cs
      | _ \<Rightarrow> cs)"

definition ball_row :: "circle option list \<Rightarrow> nat \<Rightarrow> circle option list" where
  \<comment> \<open>the body of the outer loop\<close>
  "ball_row cs c1 = (if cs ! c1 \<noteq> None then foldl (ball_pair c1) cs (for_in cs) else cs)"

definition checkForBallCollisions :: "playground \<Rightarrow> playground" where
  "checkForBallCollisions s = s\<lparr>circles := foldl ball_row (circles s) (for_in (circles s))\<rparr>"

definition deletion_step :: "playground \<Rightarrow> nat \<Rightarrow> playground" where
  "deletion_step s c1 =
     (case circles s ! c1 of
        None \<Rightarrow> s
      | Some c \<Rightarrow>
          if collided c
          then (if info_r c \<le> 0
                then s\<lparr>circles := (circles s)[c1 := None],
                       effects := effects s @ [RemoveChild (html_id c), Play ''trash'']\<rparr>
                else s)
          else s)"

definition handleDeletions :: "playground \<Rightarrow> playground" where
  "handleDeletions s = foldl deletion_step s (for_in (circles s))"

definition wall_step :: "real \<Rightarrow> real \<Rightarrow> playground \<Rightarrow> nat \<Rightarrow> playground" where
  "wall_step clientWidth clientHeight s k =
     (case circles s ! k of
        None \<Rightarrow> s
      | Some c \<Rightarrow> s\<lparr>circles := (circles s)[k := Some (checkForWallCollision clientWidth clientHeight c)]\<rparr>)"

definition checkForWallCollisions :: "real \<Rightarrow> real \<Rightarrow> playground \<Rightarrow> playground" where
  "checkForWallCollisions clientWidth clientHeight s =
     foldl (wall_step clientWidth clientHeight) s (for_in (circles s))"

definition update_step :: "playground \<Rightarrow> nat \<Rightarrow> playground" where
  "update_step s k =
     (case circles s ! k of
        None \<Rightarrow> s
      | Some c \<Rightarrow>
          (case update 1 c of
             (c', es) \<Rightarrow> s\<lparr>circles := (circles s)[k := Some c'], effects := effects s @ es\<rparr>))"

definition updatePositions :: "playground \<Rightarrow> playground" where
  "updatePositions s = foldl update_step s (for_in (circles s))"

definition checkForCollisions :: "real \<Rightarrow> real \<Rightarrow> playground \<Rightarrow> playground" where
  "checkForCollisions clientWidth clientHeight s =
     checkForWallCollisions clientWidth clientHeight (handleDeletions (checkForBallCollisions s))"

definition loop :: "real \<Rightarrow> real \<Rightarrow> playground \<Rightarrow> playground" where
  "loop clientWidth clientHeight s = updatePositions (checkForCollisions clientWidth clientHeight s)"

definition createNewCircle ::
  "real \<Rightarrow> real \<Rightarrow> real \<Rightarrow> int \<Rightarrow> real \<Rightarrow> real \<Rightarrow> playground \<Rightarrow> playground option" where
  "createNewCircle x y rad str rnd1 rnd2 s =
     (case Circle x y rad str (counter s) rnd1 rnd2 of
        None \<Rightarrow> None
      | Some new_circle \<Rightarrow>
          Some (s\<lparr>counter := counter s + 1,
                  circles := circles s @ [Some new_circle],
                  effects := effects s @ [AppendChild (counter s)]\<rparr>))"

text \<open>The constructor: no circles yet, then the first circle in the middle of the page.\<close>

definition PlayGround :: "real \<Rightarrow> real \<Rightarrow> real \<Rightarrow> real \<Rightarrow> playground option" where
  "PlayGround clientWidth clientHeight rnd1 rnd2 =
     createNewCircle (clientWidth / 2) (clientHeight / 2) INITIAL_RADIUS INITIAL_STRENGTH rnd1 rnd2
       \<lparr>counter = 0, circles = [], effects = []\<rparr>"

section \<open>The mouse\<close>

text \<open>
  \<open>getClickType\<close> reads \<open>evt.button\<close> and the three modifier keys of the event; a boolean
  counts as 0 or 1 in \<open><<\<close> and \<open>+\<close>. \<open>onmouseup\<close> is \<open>document.onmouseup\<close>, with the
  two time stamps, the fields of the event and the random values of the new circle as
  arguments. \<open>Math.pow\<close> of a negative duration is \<open>NaN\<close>: \<open>None\<close>.
\<close>

definition getClickType :: "int \<Rightarrow> bool \<Rightarrow> bool \<Rightarrow> bool \<Rightarrow> int" where
  "getClickType button altKey ctrlKey shiftKey =
     push_bit 3 (button AND 1) + push_bit 2 (of_bool altKey) + push_bit 1 (of_bool ctrlKey)
       + of_bool shiftKey"

definition onmouseup ::
  "real \<Rightarrow> real \<Rightarrow> real \<Rightarrow> real \<Rightarrow> int \<Rightarrow> bool \<Rightarrow> bool \<Rightarrow> bool \<Rightarrow> real \<Rightarrow> real
     \<Rightarrow> playground \<Rightarrow> playground option" where
  "onmouseup hrBeginTimeStamp hrEndTimeStamp x y button altKey ctrlKey shiftKey rnd1 rnd2 s =
     (if hrEndTimeStamp - hrBeginTimeStamp < 0 then None
      else let radius = (hrEndTimeStamp - hrBeginTimeStamp) powr DURATION_RADIUS_SCALING_FACTOR;
               str = getClickType button altKey ctrlKey shiftKey
           in createNewCircle x y radius str rnd1 rnd2 s)"

section \<open>The page's events\<close>

text \<open>
  The playground is driven from outside: \<open>document.onmouseup\<close> calls \<open>createNewCircle\<close>
  (\<open>Spawn\<close>, with the arguments of the call and the two random values), and the timer set
  by \<open>setInterval\<close> calls \<open>loop\<close> (\<open>Tick\<close>, with the size of the page at that moment).
  JavaScript runs each call to completion before the next. \<open>run\<close> is the state after a
  list of events, oldest first; it is \<open>None\<close> when a circle was created with a radius
  that is not positive. The first event of a page is the \<open>Spawn\<close> of the constructor;
  a \<open>Spawn\<close> from the mouse has the radius and strength that \<open>onmouseup\<close> computes.
\<close>

datatype action = Spawn real real real int real real | Tick real real

definition empty_playground :: playground where
  "empty_playground = \<lparr>counter = 0, circles = [], effects = []\<rparr>"

fun step :: "playground \<Rightarrow> action \<Rightarrow> playground option" where
  "step s (Spawn x y rad str rnd1 rnd2) = createNewCircle x y rad str rnd1 rnd2 s"
| "step s (Tick clientWidth clientHeight) = Some (loop clientWidth clientHeight s)"

fun run :: "playground \<Rightarrow> action list \<Rightarrow> playground option" where
  "run s [] = Some s"
| "run s (a # as) = (case step s a of None \<Rightarrow> None | Some s' \<Rightarrow> run s' as)"

section \<open>Notions used to state and prove the properties\<close>

text \<open>
  Nothing below is part of the program. \<open>overlap\<close> is the test of the inner loop of
  \<open>checkForBallCollisions\<close>; \<open>touches cs i c\<close> says that some other index of the array
  holds a circle that the circle \<open>c\<close> at index \<open>i\<close> overlaps. \<open>slot_step\<close> is the common
  shape of the three loops that visit each circle on its own, \<open>reap\<close> what \<open>handleDeletions\<close>
  does to one circle, \<open>flagged\<close> an array with the flags of a set of indices raised, and
  \<open>before_update\<close> the circle at index \<open>i\<close> when \<open>checkForCollisions\<close> has returned.
\<close>

definition slot_step :: "(circle \<Rightarrow> circle option \<times> effect list) \<Rightarrow> playground \<Rightarrow> nat \<Rightarrow> playground" where
  "slot_step f s k =
     (case circles s ! k of
        None \<Rightarrow> s
      | Some c \<Rightarrow> s\<lparr>circles := (circles s)[k := fst (f c)], effects := effects s @ snd (f c)\<rparr>)"

definition slot_result :: "(circle \<Rightarrow> circle option \<times> effect list) \<Rightarrow> circle option \<Rightarrow> circle option" where
  "slot_result f x = (case x of None \<Rightarrow> None | Some c \<Rightarrow> fst (f c))"

definition slot_effects :: "(circle \<Rightarrow> circle option \<times> effect list) \<Rightarrow> circle option \<Rightarrow> effect list" where
  "slot_effects f x = (case x of None \<Rightarrow> [] | Some c \<Rightarrow> snd (f c))"

definition overlap :: "circle \<Rightarrow> circle \<Rightarrow> bool" where
  "overlap a b = (getDistance a b < info_r a + info_r b)"

definition flagged :: "nat set \<Rightarrow> circle option list \<Rightarrow> circle option list" where
  "flagged F cs =
     map (\<lambda>k. map_option (\<lambda>c. c\<lparr>collided := collided c \<or> k \<in> F\<rparr>) (cs ! k)) [0..<length cs]"

definition pair_flags :: "circle option list \<Rightarrow> nat \<Rightarrow> nat \<Rightarrow> nat set" where
  "pair_flags cs c1 c2 =
     (case (cs ! c1, cs ! c2) of
        (Some a, Some b) \<Rightarrow> if c1 \<noteq> c2 \<and> overlap a b then {c1, c2} else {}
      | _ \<Rightarrow> {})"

definition touches :: "circle option list \<Rightarrow> nat \<Rightarrow> circle \<Rightarrow> bool" where
  "touches cs i c =
     (\<exists>j<length cs. j \<noteq> i \<and> (case cs ! j of None \<Rightarrow> False | Some d \<Rightarrow> getDistance c d < info_r c + info_r d))"

definition reap :: "circle \<Rightarrow> circle option \<times> effect list" where
  "reap c = (if collided c \<and> info_r c \<le> 0
             then (None, [RemoveChild (html_id c), Play ''trash''])
             else (Some c, []))"

definition before_update :: "real \<Rightarrow> real \<Rightarrow> circle option list \<Rightarrow> nat \<Rightarrow> circle option" where
  "before_update w h cs i =
     (case cs ! i of
        None \<Rightarrow> None
      | Some c \<Rightarrow>
          if (collided c \<or> touches cs i c) \<and> info_r c \<le> 0 then None
          else Some (checkForWallCollision w h (c\<lparr>collided := collided c \<or> touches cs i c\<rparr>)))"

text \<open>
  \<open>trash_events\<close> and \<open>update_events\<close> are what \<open>handleDeletions\<close> and \<open>updatePositions\<close> add to
  the effects for one slot. \<open>spawn_strength_nonneg\<close> is the condition on the strength that
  both callers of \<open>createNewCircle\<close> meet (\<open>getClickType\<close> adds bits, \<open>INITIAL_STRENGTH\<close>
  is 1). \<open>nonneg_state\<close> says that no circle of the array has a negative radius or
  strength; \<open>decay_state\<close> says more: every circle has a strength \<open>\<ge> 0\<close> and a radius
  \<open>> 0\<close>, or else the radius 0 with the flag set and the strength 0. \<open>decay_tick acts j i\<close> says that event \<open>j\<close> of \<open>acts\<close> is a tick through which the
  circle at index \<open>i\<close> lives, with no strength left, and in which its radius shrinks by 1,
  or to 0 from less than 1.
\<close>

definition trash_events :: "circle option \<Rightarrow> effect list" where
  "trash_events x =
     (case x of
        None \<Rightarrow> []
      | Some c \<Rightarrow> if collided c \<and> info_r c \<le> 0 then [RemoveChild (html_id c), Play ''trash''] else [])"

definition update_events :: "circle option \<Rightarrow> effect list" where
  "update_events x = (case x of None \<Rightarrow> [] | Some c \<Rightarrow> snd (update 1 c))"

definition spawn_strength_nonneg :: "action \<Rightarrow> bool" where
  "spawn_strength_nonneg a = (case a of Spawn x y rad str rnd1 rnd2 \<Rightarrow> 0 \<le> str | Tick w h \<Rightarrow> True)"

definition nonneg_state :: "playground \<Rightarrow> bool" where
  "nonneg_state s = (\<forall>i<length (circles s).
      case circles s ! i of None \<Rightarrow> True | Some c \<Rightarrow> 0 \<le> info_r c \<and> 0 \<le> strength c)"

definition decay_state :: "playground \<Rightarrow> bool" where
  "decay_state s = (\<forall>i<length (circles s).
      case circles s ! i of
        None \<Rightarrow> True
      | Some c \<Rightarrow> 0 \<le> strength c \<and> (0 < info_r c \<or> info_r c = 0 \<and> collided c \<and> strength c = 0))"

definition decay_tick :: "action list \<Rightarrow> nat \<Rightarrow> nat \<Rightarrow> bool" where
  "decay_tick acts j i =
     (case (acts ! j, run empty_playground (take j acts)) of
        (Tick w h, Some s) \<Rightarrow>
          i < length (circles s) \<and>
          (case (circles s ! i, circles (loop w h s) ! i) of
             (Some c, Some c') \<Rightarrow>
               \<not> 0 < strength c \<and> info_r c' = max (info_r c - 1) 0 \<and> info_r c' < info_r c
           | _ \<Rightarrow> False)
      | _ \<Rightarrow> False)"

section \<open>Example states\<close>

definition ball :: "nat \<Rightarrow> real \<Rightarrow> real \<Rightarrow> real \<Rightarrow> circle" where
  "ball k x y rad = \<lparr>html_id = k, collided = False, strength = 1, info_cx = x, info_cy = y,
      info_r = rad, velocity_x = 0, velocity_y = 0\<rparr>"

definition three_balls :: playground where
  "three_balls = \<lparr>counter = 3, circles = [Some (ball 0 0 0 5), Some (ball 1 6 0 5), Some (ball 2 16 0 5)], effects = []\<rparr>"

definition corner_circle :: circle where
  "corner_circle = \<lparr>html_id = 0, collided = False, strength = 1, info_cx = 95, info_cy = 2,
      info_r = 10, velocity_x = 2, velocity_y = - 1\<rparr>"

definition wide_circle :: circle where
  "wide_circle = \<lparr>html_id = 0, collided = False, strength = 1, info_cx = 5, info_cy = 50,
      info_r = 10, velocity_x = 1, velocity_y = 0\<rparr>"

definition corner_playground :: playground where
  "corner_playground = \<lparr>counter = 1, circles = [Some corner_circle], effects = []\<rparr>"

text \<open>
  \<open>pair_acts\<close>: the constructor's circle in the middle of a page of 100 by 100, two circles
  of radius 1 and strength 0 that overlap each other away from it, all with velocity 0
  (random value 1/2), and two ticks. \<open>pair_spawned\<close>, \<open>pair_decayed\<close> and \<open>pair_reaped\<close> are
  the states after the third, fourth and fifth event. \<open>mixed\<close> holds a circle at the end
  of its decay and two fresh circles that overlap; \<open>mixed_after\<close> is \<open>mixed\<close> one tick later.
\<close>

definition still :: "nat \<Rightarrow> bool \<Rightarrow> int \<Rightarrow> real \<Rightarrow> real \<Rightarrow> real \<Rightarrow> circle" where
  "still k f str x y rad = \<lparr>html_id = k, collided = f, strength = str, info_cx = x, info_cy = y,
      info_r = rad, velocity_x = 0, velocity_y = 0\<rparr>"

definition pair_acts :: "action list" where
  "pair_acts = [Spawn 50 50 INITIAL_RADIUS INITIAL_STRENGTH (1/2) (1/2),
                Spawn 80 80 1 0 (1/2) (1/2), Spawn 81 80 1 0 (1/2) (1/2),
                Tick 100 100, Tick 100 100]"

definition pair_spawned :: playground where
  "pair_spawned = \<lparr>counter = 3,
      circles = [Some (still 0 False 1 50 50 10), Some (still 1 False 0 80 80 1), Some (still 2 False 0 81 80 1)],
      effects = [AppendChild 0, AppendChild 1, AppendChild 2]\<rparr>"

definition pair_decayed :: playground where
  "pair_decayed = \<lparr>counter = 3,
      circles = [Some (still 0 False 1 50 50 10), Some (still 1 True 0 80 80 0), Some (still 2 True 0 81 80 0)],
      effects = [AppendChild 0, AppendChild 1, AppendChild 2]\<rparr>"

definition pair_reaped :: playground where
  "pair_reaped = \<lparr>counter = 3,
      circles = [Some (still 0 False 1 50 50 10), None, None],
      effects = [AppendChild 0, AppendChild 1, AppendChild 2,
                 RemoveChild 1, Play ''trash'', RemoveChild 2, Play ''trash'']\<rparr>"

definition mixed :: playground where
  "mixed = \<lparr>counter = 3,
      circles = [Some (still 0 True 0 20 20 0), Some (still 1 False 1 60 60 5), Some (still 2 False 1 62 60 5)],
      effects = []\<rparr>"

definition mixed_after :: playground where
  "mixed_after = \<lparr>counter = 3,
      circles = [None, Some (still 1 False 0 60 60 5), Some (still 2 False 0 62 60 5)],
      effects = [RemoveChild 0, Play ''trash'', Play ''zee-ow'', Play ''zee-ow'']\<rparr>"

section \<open>The loops, slot by slot\<close>

lemma for_in_set: "set (for_in cs) = {k. k < length cs \<and> cs ! k \<noteq> None}"
  by (auto simp: for_in_def)

lemma for_in_distinct: "distinct (for_in cs)"
  by (simp add: for_in_def)

lemma slot_step_fields:
  "length (circles (slot_step f s k)) = length (circles s)"
  "counter (slot_step f s k) = counter s"
  "effects (slot_step f s k) = effects s @ slot_effects f (circles s ! k)"
  "i < length (circles s) \<Longrightarrow>
     circles (slot_step f s k) ! i = (if i = k then slot_result f (circles s ! k) else circles s ! i)"
  by (auto simp: slot_step_def slot_result_def slot_effects_def split: option.splits)

lemma slot_fold:
  "distinct ks \<Longrightarrow> \<forall>k\<in>set ks. k < length (circles s) \<Longrightarrow>
   length (circles (foldl (slot_step f) s ks)) = length (circles s) \<and>
   counter (foldl (slot_step f) s ks) = counter s \<and>
   effects (foldl (slot_step f) s ks) = effects s @ concat (map (\<lambda>k. slot_effects f (circles s ! k)) ks) \<and>
   (\<forall>i<length (circles s). circles (foldl (slot_step f) s ks) ! i =
       (if i \<in> set ks then slot_result f (circles s ! i) else circles s ! i))"
proof (induction ks rule: rev_induct)
  case Nil
  then show ?case by simp
next
  case (snoc k ks)
  then have d: "distinct ks" and nk: "k \<notin> set ks" and
    b: "\<forall>k\<in>set ks. k < length (circles s)" and kb: "k < length (circles s)" by simp_all
  let ?t = "foldl (slot_step f) s ks"
  from snoc.IH [OF d b] have
    len: "length (circles ?t) = length (circles s)" and
    cnt: "counter ?t = counter s" and
    eff: "effects ?t = effects s @ concat (map (\<lambda>k. slot_effects f (circles s ! k)) ks)" and
    nth: "\<And>i. i < length (circles s) \<Longrightarrow>
            circles ?t ! i = (if i \<in> set ks then slot_result f (circles s ! i) else circles s ! i)"
    by simp_all
  have k: "circles ?t ! k = circles s ! k" using nth [OF kb] nk by simp
  show ?case
    using len cnt eff nth k by (simp add: slot_step_fields)
qed

lemma getDistance_sym: "getDistance a b = getDistance b a"
  by (simp add: getDistance_def power2_commute)

lemma overlap_sym: "overlap a b = overlap b a"
  by (simp add: overlap_def getDistance_sym add.commute)

lemma getDistance_collided [simp]:
  "getDistance (a\<lparr>collided := x\<rparr>) b = getDistance a b"
  "getDistance a (b\<lparr>collided := y\<rparr>) = getDistance a b"
  by (simp_all add: getDistance_def)

lemma overlap_collided [simp]:
  "overlap (a\<lparr>collided := x\<rparr>) b = overlap a b"
  "overlap a (b\<lparr>collided := y\<rparr>) = overlap a b"
  by (simp_all add: overlap_def getDistance_def)

lemma flagged_length [simp]: "length (flagged F cs) = length cs"
  by (simp add: flagged_def)

lemma flagged_nth:
  "k < length cs \<Longrightarrow> flagged F cs ! k = map_option (\<lambda>c. c\<lparr>collided := collided c \<or> k \<in> F\<rparr>) (cs ! k)"
  by (simp add: flagged_def)

lemma flagged_empty: "flagged {} cs = cs"
  by (rule nth_equalityI) (simp_all add: flagged_nth option.map_ident)

lemma for_in_flagged: "for_in (flagged F cs) = for_in cs"
  unfolding for_in_def by (rule filter_cong) (simp_all add: flagged_nth)

lemma set_collided_flagged:
  assumes "k < length cs"
  shows "set_collided k (flagged F cs) = flagged (if cs ! k = None then F else insert k F) cs"
proof (cases "cs ! k")
  case None
  then show ?thesis using assms by (simp add: set_collided_def flagged_nth)
next
  case (Some c)
  have "(flagged F cs)[k := Some (c\<lparr>collided := True\<rparr>)] = flagged (insert k F) cs"
    using assms Some by (intro nth_equalityI) (auto simp: flagged_nth nth_list_update)
  then show ?thesis using assms Some by (simp add: set_collided_def flagged_nth)
qed

lemma ball_pair_flagged:
  assumes "c1 < length cs" "c2 < length cs"
  shows "ball_pair c1 (flagged F cs) c2 = flagged (F \<union> pair_flags cs c1 c2) cs"
proof (cases "cs ! c1")
  case None
  then show ?thesis using assms by (simp add: ball_pair_def pair_flags_def flagged_nth)
next
  case a: (Some a)
  show ?thesis
  proof (cases "cs ! c2")
    case None
    then show ?thesis using assms a by (simp add: ball_pair_def pair_flags_def flagged_nth)
  next
    case b: (Some b)
    show ?thesis
    proof (cases "c1 \<noteq> c2 \<and> overlap a b")
      case False
      then show ?thesis using assms a b
        by (auto simp: ball_pair_def pair_flags_def flagged_nth overlap_def)
    next
      case True
      have "set_collided c2 (set_collided c1 (flagged F cs)) = flagged (insert c2 (insert c1 F)) cs"
        using assms a b by (simp add: set_collided_flagged)
      moreover have "insert c2 (insert c1 F) = F \<union> pair_flags cs c1 c2"
        using True a b by (auto simp: pair_flags_def)
      ultimately show ?thesis using assms a b True
        by (simp add: ball_pair_def flagged_nth overlap_def)
    qed
  qed
qed

lemma ball_inner_flagged:
  "\<forall>k\<in>set ks. k < length cs \<Longrightarrow> c1 < length cs \<Longrightarrow>
   foldl (ball_pair c1) (flagged F cs) ks = flagged (F \<union> (\<Union>c2\<in>set ks. pair_flags cs c1 c2)) cs"
proof (induction ks arbitrary: F)
  case Nil
  then show ?case by simp
next
  case (Cons k ks)
  have "F \<union> pair_flags cs c1 k \<union> (\<Union>c2\<in>set ks. pair_flags cs c1 c2)
      = F \<union> (\<Union>c2\<in>set (k # ks). pair_flags cs c1 c2)" by auto
  with Cons show ?case by (simp add: ball_pair_flagged)
qed

lemma for_in_bound: "\<forall>k\<in>set (for_in cs). k < length cs"
  by (simp add: for_in_set)

lemma ball_row_flagged:
  assumes "c1 < length cs"
  shows "ball_row (flagged F cs) c1 = flagged (F \<union> (\<Union>c2\<in>set (for_in cs). pair_flags cs c1 c2)) cs"
proof (cases "cs ! c1")
  case None
  then have "(\<Union>c2\<in>set (for_in cs). pair_flags cs c1 c2) = {}" by (simp add: pair_flags_def)
  then show ?thesis using None assms by (simp add: ball_row_def flagged_nth)
next
  case (Some a)
  then show ?thesis using assms
    by (simp add: ball_row_def flagged_nth for_in_flagged ball_inner_flagged for_in_bound)
qed

lemma ball_outer_flagged:
  "\<forall>k\<in>set ks. k < length cs \<Longrightarrow>
   foldl ball_row (flagged F cs) ks
     = flagged (F \<union> (\<Union>c1\<in>set ks. \<Union>c2\<in>set (for_in cs). pair_flags cs c1 c2)) cs"
proof (induction ks arbitrary: F)
  case Nil
  then show ?case by simp
next
  case (Cons k ks)
  have "F \<union> (\<Union>c2\<in>set (for_in cs). pair_flags cs k c2)
          \<union> (\<Union>c1\<in>set ks. \<Union>c2\<in>set (for_in cs). pair_flags cs c1 c2)
      = F \<union> (\<Union>c1\<in>set (k # ks). \<Union>c2\<in>set (for_in cs). pair_flags cs c1 c2)" by auto
  with Cons show ?case by (simp add: ball_row_flagged)
qed

lemma all_pair_flags:
  assumes "i < length cs" "cs ! i = Some c"
  shows "i \<in> (\<Union>c1\<in>set (for_in cs). \<Union>c2\<in>set (for_in cs). pair_flags cs c1 c2) \<longleftrightarrow> touches cs i c"
proof
  assume "i \<in> (\<Union>c1\<in>set (for_in cs). \<Union>c2\<in>set (for_in cs). pair_flags cs c1 c2)"
  then obtain c1 c2 where k: "c1 < length cs" "c2 < length cs" and m: "i \<in> pair_flags cs c1 c2"
    by (auto simp: for_in_set)
  from m obtain a b where ab: "cs ! c1 = Some a" "cs ! c2 = Some b" "c1 \<noteq> c2" "overlap a b" "i = c1 \<or> i = c2"
    by (auto simp: pair_flags_def split: option.splits if_splits)
  from ab(5) show "touches cs i c"
  proof
    assume "i = c1"
    then show ?thesis using ab k assms
      by (auto simp: touches_def overlap_def intro!: exI [of _ c2])
  next
    assume "i = c2"
    then show ?thesis using ab k assms overlap_sym [of a b]
      by (auto simp: touches_def overlap_def intro!: exI [of _ c1])
  qed
next
  assume "touches cs i c"
  then obtain j d where j: "j < length cs" "j \<noteq> i" "cs ! j = Some d" "overlap c d"
    by (auto simp: touches_def overlap_def split: option.splits)
  then have "i \<in> pair_flags cs i j" using assms by (simp add: pair_flags_def)
  moreover have "i \<in> set (for_in cs)" "j \<in> set (for_in cs)" using assms j by (simp_all add: for_in_set)
  ultimately show "i \<in> (\<Union>c1\<in>set (for_in cs). \<Union>c2\<in>set (for_in cs). pair_flags cs c1 c2)"
    by blast
qed

lemma checkForBallCollisions_nth:
  assumes "i < length (circles s)"
  shows "circles (checkForBallCollisions s) ! i =
           map_option (\<lambda>c. c\<lparr>collided := collided c \<or> touches (circles s) i c\<rparr>) (circles s ! i)"
proof -
  let ?cs = "circles s"
  let ?F = "\<Union>c1\<in>set (for_in ?cs). \<Union>c2\<in>set (for_in ?cs). pair_flags ?cs c1 c2"
  have "foldl ball_row (flagged {} ?cs) (for_in ?cs) = flagged ({} \<union> ?F) ?cs"
    by (rule ball_outer_flagged) (rule for_in_bound)
  then have "circles (checkForBallCollisions s) = flagged ?F ?cs"
    by (simp add: checkForBallCollisions_def flagged_empty)
  then show ?thesis using assms all_pair_flags [OF assms]
    by (cases "?cs ! i") (simp_all add: flagged_nth)
qed

lemma checkForBallCollisions_fields:
  "length (circles (checkForBallCollisions s)) = length (circles s)"
  "counter (checkForBallCollisions s) = counter s"
  "effects (checkForBallCollisions s) = effects s"
proof -
  have "foldl ball_row (flagged {} (circles s)) (for_in (circles s)) = flagged ({} \<union> (\<Union>c1\<in>set (for_in (circles s)). \<Union>c2\<in>set (for_in (circles s)). pair_flags (circles s) c1 c2)) (circles s)"
    by (rule ball_outer_flagged) (rule for_in_bound)
  then show "length (circles (checkForBallCollisions s)) = length (circles s)"
    by (simp add: checkForBallCollisions_def flagged_empty)
qed (simp_all add: checkForBallCollisions_def)

lemma slot_step_same:
  "circles s ! k = Some c \<Longrightarrow> s\<lparr>circles := (circles s)[k := Some c]\<rparr> = s"
  using list_update_id [of "circles s" k] by simp

lemma slot_effects_pair:
  "slot_effects (\<lambda>c. (g c, e c)) x = (case x of None \<Rightarrow> [] | Some c \<Rightarrow> e c)"
  by (simp add: slot_effects_def split: option.splits)

lemma deletion_step_slot: "deletion_step s k = slot_step reap s k"
  by (auto simp: deletion_step_def slot_step_def reap_def slot_step_same split: option.splits)

lemma wall_step_slot:
  "wall_step w h s k = slot_step (\<lambda>c. (Some (checkForWallCollision w h c), [])) s k"
  by (auto simp: wall_step_def slot_step_def split: option.splits)

lemma update_step_slot:
  "update_step s k = slot_step (\<lambda>c. (Some (fst (update 1 c)), snd (update 1 c))) s k"
  by (auto simp: update_step_def slot_step_def split: option.splits prod.splits)

lemma slot_for_in:
  "length (circles (foldl (slot_step f) s (for_in (circles s)))) = length (circles s)"
  "counter (foldl (slot_step f) s (for_in (circles s))) = counter s"
  "effects (foldl (slot_step f) s (for_in (circles s)))
     = effects s @ concat (map (\<lambda>k. slot_effects f (circles s ! k)) (for_in (circles s)))"
  "i < length (circles s) \<Longrightarrow>
     circles (foldl (slot_step f) s (for_in (circles s))) ! i = slot_result f (circles s ! i)"
proof -
  note all = slot_fold [OF for_in_distinct for_in_bound]
  show "length (circles (foldl (slot_step f) s (for_in (circles s)))) = length (circles s)"
    using all by blast
  show "counter (foldl (slot_step f) s (for_in (circles s))) = counter s"
    using all by blast
  show "effects (foldl (slot_step f) s (for_in (circles s)))
     = effects s @ concat (map (\<lambda>k. slot_effects f (circles s ! k)) (for_in (circles s)))"
    using all by blast
  assume i: "i < length (circles s)"
  with all have "circles (foldl (slot_step f) s (for_in (circles s))) ! i =
       (if i \<in> set (for_in (circles s)) then slot_result f (circles s ! i) else circles s ! i)"
    by blast
  then show "circles (foldl (slot_step f) s (for_in (circles s))) ! i = slot_result f (circles s ! i)"
    using i by (cases "circles s ! i") (simp_all add: for_in_set slot_result_def)
qed

lemma handleDeletions_slot: "handleDeletions s = foldl (slot_step reap) s (for_in (circles s))"
  unfolding handleDeletions_def by (rule foldl_cong) (simp_all add: deletion_step_slot)

lemma checkForWallCollisions_slot:
  "checkForWallCollisions w h s
     = foldl (slot_step (\<lambda>c. (Some (checkForWallCollision w h c), []))) s (for_in (circles s))"
  unfolding checkForWallCollisions_def by (rule foldl_cong) (simp_all add: wall_step_slot)

lemma updatePositions_slot:
  "updatePositions s
     = foldl (slot_step (\<lambda>c. (Some (fst (update 1 c)), snd (update 1 c)))) s (for_in (circles s))"
  unfolding updatePositions_def by (rule foldl_cong) (simp_all add: update_step_slot)

lemma handleDeletions_fields:
  "length (circles (handleDeletions s)) = length (circles s)"
  "counter (handleDeletions s) = counter s"
  "effects (handleDeletions s)
     = effects s @ concat (map (\<lambda>k. slot_effects reap (circles s ! k)) (for_in (circles s)))"
  by (simp_all add: handleDeletions_slot slot_for_in)

lemma handleDeletions_nth:
  "i < length (circles s) \<Longrightarrow>
   circles (handleDeletions s) ! i =
     (case circles s ! i of
        None \<Rightarrow> None
      | Some c \<Rightarrow> if collided c \<and> info_r c \<le> 0 then None else Some c)"
  by (simp add: handleDeletions_slot slot_for_in slot_result_def reap_def split: option.splits)

lemma checkForWallCollisions_fields:
  "length (circles (checkForWallCollisions w h s)) = length (circles s)"
  "counter (checkForWallCollisions w h s) = counter s"
  "effects (checkForWallCollisions w h s) = effects s"
  by (simp_all add: checkForWallCollisions_slot slot_for_in slot_effects_def split: option.splits)

lemma checkForWallCollisions_nth:
  "i < length (circles s) \<Longrightarrow>
   circles (checkForWallCollisions w h s) ! i = map_option (checkForWallCollision w h) (circles s ! i)"
  by (simp add: checkForWallCollisions_slot slot_for_in slot_result_def split: option.splits)

lemma updatePositions_fields:
  "length (circles (updatePositions s)) = length (circles s)"
  "counter (updatePositions s) = counter s"
  "effects (updatePositions s)
     = effects s @ concat (map (\<lambda>k. case circles s ! k of None \<Rightarrow> [] | Some c \<Rightarrow> snd (update 1 c)) (for_in (circles s)))"
  by (simp_all add: updatePositions_slot slot_for_in slot_effects_pair)

lemma updatePositions_nth:
  "i < length (circles s) \<Longrightarrow>
   circles (updatePositions s) ! i = map_option (\<lambda>c. fst (update 1 c)) (circles s ! i)"
  by (simp add: updatePositions_slot slot_for_in slot_result_def split: option.splits)

lemma checkForCollisions_length: "length (circles (checkForCollisions w h s)) = length (circles s)"
  by (simp add: checkForCollisions_def checkForWallCollisions_fields handleDeletions_fields
      checkForBallCollisions_fields)

lemma checkForCollisions_nth:
  "i < length (circles s) \<Longrightarrow>
   circles (checkForCollisions w h s) ! i = before_update w h (circles s) i"
  by (simp add: checkForCollisions_def checkForWallCollisions_nth handleDeletions_nth
      handleDeletions_fields checkForBallCollisions_nth checkForBallCollisions_fields
      before_update_def split: option.splits)

lemma loop_length: "length (circles (loop w h s)) = length (circles s)"
  by (simp add: loop_def updatePositions_fields checkForCollisions_length)

lemma loop_nth:
  "i < length (circles s) \<Longrightarrow>
   circles (loop w h s) ! i = map_option (\<lambda>c. fst (update 1 c)) (before_update w h (circles s) i)"
  by (simp add: loop_def updatePositions_nth checkForCollisions_length checkForCollisions_nth)

lemma sqrt_less_iff_sq: "0 \<le> x \<Longrightarrow> sqrt x < y \<longleftrightarrow> 0 < y \<and> x < y\<^sup>2"
proof (cases "0 < y")
  case True
  assume "0 \<le> x"
  have "sqrt x < y \<longleftrightarrow> sqrt x < sqrt (y\<^sup>2)" using True by simp
  also have "\<dots> \<longleftrightarrow> x < y\<^sup>2" by (rule real_sqrt_less_iff)
  finally show ?thesis using True by simp
next
  case False
  assume "0 \<le> x"
  then have "0 \<le> sqrt x" by simp
  with False have "\<not> sqrt x < y" by linarith
  with False show ?thesis by blast
qed

lemma getDistance_less_iff:
  "getDistance a b < d \<longleftrightarrow> 0 < d \<and> (info_cx a - info_cx b)\<^sup>2 + (info_cy a - info_cy b)\<^sup>2 < d\<^sup>2"
  by (simp add: getDistance_def sqrt_less_iff_sq)

lemma slot_step_more: "playground.more (slot_step f s k) = playground.more s"
  by (simp add: slot_step_def split: option.splits)

section \<open>One tick, circle by circle\<close>

lemma update_fields:
  "strength (fst (update t c)) = (if collided c \<and> strength c > 0 then strength c - 1 else strength c)"
  "collided (fst (update t c)) = (collided c \<and> \<not> strength c > 0)"
  "info_r (fst (update t c)) = (if collided c \<and> \<not> strength c > 0 then max (info_r c - 1) 0 else info_r c)"
  "info_cx (fst (update t c)) = info_cx c + velocity_x c * t"
  "info_cy (fst (update t c)) = info_cy c + velocity_y c * t"
  "velocity_x (fst (update t c)) = velocity_x c"
  "velocity_y (fst (update t c)) = velocity_y c"
  "html_id (fst (update t c)) = html_id c"
  "snd (update t c) = (if collided c \<and> strength c > 0 then [Play ''zee-ow''] else [])"
  by (simp_all add: update_def Let_def)

lemma checkForWallCollision_fields:
  "strength (checkForWallCollision w h c) = strength c"
  "collided (checkForWallCollision w h c) = collided c"
  "info_r (checkForWallCollision w h c) = info_r c"
  "info_cx (checkForWallCollision w h c) = info_cx c"
  "info_cy (checkForWallCollision w h c) = info_cy c"
  "html_id (checkForWallCollision w h c) = html_id c"
  by (simp_all add: checkForWallCollision_def Let_def)

lemma before_update_Some:
  assumes "before_update w h cs i = Some d"
  obtains c where "cs ! i = Some c"
    and "\<not> ((collided c \<or> touches cs i c) \<and> info_r c \<le> 0)"
    and "d = checkForWallCollision w h (c\<lparr>collided := collided c \<or> touches cs i c\<rparr>)"
  using assms by (auto simp: before_update_def split: option.splits if_splits)

lemma before_update_fields:
  assumes "cs ! i = Some c" and "before_update w h cs i = Some d"
  shows "strength d = strength c" "info_r d = info_r c" "info_cx d = info_cx c" "info_cy d = info_cy c"
    "html_id d = html_id c" "collided d \<longleftrightarrow> collided c \<or> touches cs i c"
    "\<not> (collided d \<and> info_r d \<le> 0)"
  using assms by (auto simp: before_update_def checkForWallCollision_fields split: if_splits)

lemma concat_for_in:
  assumes "g None = []"
  shows "concat (map (\<lambda>k. g (cs ! k)) (for_in cs)) = concat (map g cs)"
proof -
  have "map (\<lambda>k. g (cs ! k)) (for_in cs)
          = map g (filter (\<lambda>x. x \<noteq> None) (map (\<lambda>k. cs ! k) [0..<length cs]))"
    by (simp add: for_in_def filter_map comp_def)
  also have "\<dots> = map g (filter (\<lambda>x. x \<noteq> None) cs)"
    by (simp add: map_nth)
  finally have "concat (map (\<lambda>k. g (cs ! k)) (for_in cs))
          = concat (map g (filter (\<lambda>x. x \<noteq> None) cs))" by simp
  also have "\<dots> = concat (map g cs)"
    using assms by (induction cs) simp_all
  finally show ?thesis .
qed

lemma slot_effects_reap: "slot_effects reap = trash_events"
  by (rule ext) (simp add: slot_effects_def trash_events_def reap_def split: option.splits)

lemma handleDeletions_effects:
  "effects (handleDeletions s) = effects s @ concat (map trash_events (circles s))"
proof -
  have n: "trash_events None = []" by (simp add: trash_events_def)
  show ?thesis
    using n by (simp add: handleDeletions_fields slot_effects_reap concat_for_in [of trash_events])
qed

lemma updatePositions_effects:
  "effects (updatePositions s) = effects s @ concat (map update_events (circles s))"
proof -
  have e: "slot_effects (\<lambda>c. (Some (fst (update 1 c)), snd (update 1 c))) = update_events"
    by (rule ext) (simp add: slot_effects_pair update_events_def)
  have n: "update_events None = []" by (simp add: update_events_def)
  show ?thesis
    using n by (simp add: updatePositions_slot slot_for_in e concat_for_in [of update_events])
qed

lemma loop_effects:
  "effects (loop w h s) = effects s @ concat (map trash_events (circles (checkForBallCollisions s)))
      @ concat (map update_events (circles (checkForCollisions w h s)))"
  by (simp add: loop_def updatePositions_effects checkForCollisions_def [of w h s, symmetric])
    (simp add: checkForCollisions_def checkForWallCollisions_fields handleDeletions_effects
      checkForBallCollisions_fields)

lemma loop_None_iff:
  assumes "i < length (circles s)" and "circles s ! i = Some c"
  shows "circles (loop w h s) ! i = None \<longleftrightarrow> (collided c \<or> touches (circles s) i c) \<and> info_r c \<le> 0"
  using assms by (simp add: loop_nth before_update_def)

lemmas run_simps = createNewCircle_def Circle_def empty_playground_def
  randomNumberBetween_def MAX_VELOCITY_def INITIAL_RADIUS_def INITIAL_STRENGTH_def still_def

lemmas loop_simps = loop_def checkForCollisions_def checkForBallCollisions_def handleDeletions_def
  checkForWallCollisions_def updatePositions_def for_in_def ball_row_def ball_pair_def
  set_collided_def deletion_step_def wall_step_def update_step_def update_def
  checkForWallCollision_def getDistance_less_iff upt_rec still_def

lemma run_pair_spawned: "run empty_playground (take 3 pair_acts) = Some pair_spawned"
  by (simp add: pair_acts_def pair_spawned_def run_simps)

lemma loop_pair_spawned: "loop 100 100 pair_spawned = pair_decayed"
  by (simp add: pair_spawned_def pair_decayed_def loop_simps)

lemma loop_pair_decayed: "loop 100 100 pair_decayed = pair_reaped"
  by (simp add: pair_reaped_def pair_decayed_def loop_simps)

lemma run_append: "run s (xs @ ys) = (case run s xs of None \<Rightarrow> None | Some t \<Rightarrow> run t ys)"
  by (induction xs arbitrary: s) (simp_all split: option.splits)

lemma run_pair_decayed: "run empty_playground (take 4 pair_acts) = Some pair_decayed"
proof -
  have "take 4 pair_acts = take 3 pair_acts @ [Tick 100 100]" by (simp add: pair_acts_def)
  then show ?thesis by (simp add: run_append run_pair_spawned loop_pair_spawned)
qed

lemma run_pair_acts: "run empty_playground pair_acts = Some pair_reaped"
proof -
  have "pair_acts = take 4 pair_acts @ [Tick 100 100]" by (simp add: pair_acts_def)
  then have "run empty_playground pair_acts
      = (case run empty_playground (take 4 pair_acts) of None \<Rightarrow> None | Some t \<Rightarrow> run t [Tick 100 100])"
    using run_append [of empty_playground "take 4 pair_acts" "[Tick 100 100]"] by simp
  then show ?thesis by (simp add: run_pair_decayed loop_pair_decayed)
qed

lemma loop_mixed: "loop 100 100 mixed = mixed_after"
  by (simp add: mixed_def mixed_after_def loop_simps)

lemma createNewCircle_Some:
  assumes "createNewCircle x y rad str rnd1 rnd2 s = Some s'"
  obtains c where "0 < rad" and "Circle x y rad str (counter s) rnd1 rnd2 = Some c"
    and "circles s' = circles s @ [Some c]" and "info_r c = rad" and "strength c = str"
    and "\<not> collided c"
  using assms by (auto simp: createNewCircle_def Circle_def split: if_splits)

lemma nonneg_state_spawn:
  assumes "nonneg_state s" and "createNewCircle x y rad str rnd1 rnd2 s = Some s'" and "0 \<le> str"
  shows "nonneg_state s'"
proof -
  from assms(2) obtain c where c: "0 < rad" "circles s' = circles s @ [Some c]"
      "info_r c = rad" "strength c = str"
    by (rule createNewCircle_Some)
  show ?thesis
    unfolding nonneg_state_def
  proof (intro allI impI)
    fix i assume "i < length (circles s')"
    then have "i < length (circles s) \<or> i = length (circles s)" using c(2) by auto
    then consider "i < length (circles s)" | "i = length (circles s)" by blast
    then show "case circles s' ! i of None \<Rightarrow> True | Some c \<Rightarrow> 0 \<le> info_r c \<and> 0 \<le> strength c"
    proof cases
      case 1
      then show ?thesis using assms(1) c(2) by (simp add: nonneg_state_def nth_append)
    next
      case 2
      then show ?thesis using c assms(3) by (simp add: nth_append)
    qed
  qed
qed

lemma nonneg_state_loop:
  assumes "nonneg_state s"
  shows "nonneg_state (loop w h s)"
  unfolding nonneg_state_def
proof (intro allI impI)
  fix i assume "i < length (circles (loop w h s))"
  then have i: "i < length (circles s)" by (simp add: loop_length)
  show "case circles (loop w h s) ! i of None \<Rightarrow> True | Some c \<Rightarrow> 0 \<le> info_r c \<and> 0 \<le> strength c"
  proof (cases "circles (loop w h s) ! i")
    case None
    then show ?thesis by simp
  next
    case (Some c')
    with i obtain d where d: "before_update w h (circles s) i = Some d" and c': "c' = fst (update 1 d)"
      by (auto simp: loop_nth)
    from d obtain c where c: "circles s ! i = Some c" by (rule before_update_Some)
    note f = before_update_fields [OF c d]
    from assms i c have "0 \<le> info_r c \<and> 0 \<le> strength c" by (auto simp: nonneg_state_def)
    then show ?thesis using Some c' f(1,2) by (simp add: update_fields)
  qed
qed

lemma nonneg_state_run:
  "nonneg_state s \<Longrightarrow> run s acts = Some t \<Longrightarrow> \<forall>a\<in>set acts. spawn_strength_nonneg a \<Longrightarrow> nonneg_state t"
proof (induction acts arbitrary: s)
  case Nil
  then show ?case by simp
next
  case (Cons a acts)
  from Cons.prems(2) obtain s' where s': "step s a = Some s'" and r: "run s' acts = Some t"
    by (auto split: option.splits)
  have "nonneg_state s'"
  proof (cases a)
    case (Spawn x y rad str rnd1 rnd2)
    with Cons.prems(3) have "0 \<le> str" by (simp add: spawn_strength_nonneg_def)
    with Cons.prems(1) s' Spawn show ?thesis by (auto intro: nonneg_state_spawn)
  next
    case (Tick w h)
    with s' Cons.prems(1) show ?thesis by (auto intro: nonneg_state_loop)
  qed
  with Cons.IH r Cons.prems(3) show ?case by simp
qed

lemma PlayGround_run:
  "PlayGround clientWidth clientHeight rnd1 rnd2
     = run empty_playground
         [Spawn (clientWidth / 2) (clientHeight / 2) INITIAL_RADIUS INITIAL_STRENGTH rnd1 rnd2]"
  by (simp add: PlayGround_def empty_playground_def split: option.splits)

lemma getClickType_range:
  "0 \<le> getClickType button altKey ctrlKey shiftKey \<and> getClickType button altKey ctrlKey shiftKey \<le> 15"
proof -
  define b where "b = button AND 1"
  have "b = button mod 2" by (simp add: b_def and_one_eq)
  then have b: "0 \<le> b" "b \<le> 1" by simp_all
  have "getClickType button altKey ctrlKey shiftKey
          = 8 * b + 4 * of_bool altKey + 2 * of_bool ctrlKey + of_bool shiftKey"
    by (simp add: getClickType_def push_bit_eq_mult b_def)
  with b show ?thesis
    by (cases altKey; cases ctrlKey; cases shiftKey) simp_all
qed

lemma callers_strength_nonneg:
  "spawn_strength_nonneg (Spawn x y rad (getClickType button altKey ctrlKey shiftKey) rnd1 rnd2)"
  "spawn_strength_nonneg (Spawn x y rad INITIAL_STRENGTH rnd1 rnd2)"
  using getClickType_range by (simp_all add: spawn_strength_nonneg_def INITIAL_STRENGTH_def)

lemma onmouseup_step:
  assumes "onmouseup t0 t1 x y button altKey ctrlKey shiftKey rnd1 rnd2 s = Some s'"
  shows "step s (Spawn x y ((t1 - t0) powr DURATION_RADIUS_SCALING_FACTOR)
                   (getClickType button altKey ctrlKey shiftKey) rnd1 rnd2) = Some s'"
  using assms by (simp add: onmouseup_def Let_def split: if_splits)

lemma nonneg_state_empty: "nonneg_state empty_playground"
  by (simp add: nonneg_state_def empty_playground_def)

lemma pair_acts_nonneg: "\<forall>a\<in>set (take 4 pair_acts). spawn_strength_nonneg a"
  by (simp add: pair_acts_def spawn_strength_nonneg_def INITIAL_STRENGTH_def)

lemma decay_history:
  "m \<le> length acts \<Longrightarrow> run empty_playground (take m acts) = Some s \<Longrightarrow>
   i < length (circles s) \<Longrightarrow> circles s ! i = Some c \<Longrightarrow> info_r c \<le> 0 \<Longrightarrow>
   \<not> 0 < strength c \<and> (\<exists>j<m. decay_tick acts j i)"
proof (induction m arbitrary: s i c)
  case 0
  then show ?case by (auto simp: empty_playground_def)
next
  case (Suc m)
  from Suc.prems(1) have m: "m < length acts" "m \<le> length acts" by simp_all
  then have "take (Suc m) acts = take m acts @ [acts ! m]" by (simp add: take_Suc_conv_app_nth)
  with Suc.prems(2) obtain t where t: "run empty_playground (take m acts) = Some t"
      and st: "step t (acts ! m) = Some s"
    by (auto simp: run_append split: option.splits)
  show ?case
  proof (cases "acts ! m")
    case (Spawn x y rad str rnd1 rnd2)
    with st have "createNewCircle x y rad str rnd1 rnd2 t = Some s" by simp
    then obtain c0 where c0: "0 < rad" "circles s = circles t @ [Some c0]" "info_r c0 = rad"
      by (rule createNewCircle_Some)
    from Suc.prems(3) c0(2) have "i < length (circles t) \<or> i = length (circles t)" by auto
    then show ?thesis
    proof
      assume i: "i < length (circles t)"
      with Suc.prems(4) c0(2) have "circles t ! i = Some c" by (simp add: nth_append)
      from Suc.IH [OF m(2) t i this Suc.prems(5)] show ?thesis
        using less_Suc_eq by auto
    next
      assume "i = length (circles t)"
      with Suc.prems(4,5) c0 show ?thesis by simp
    qed
  next
    case (Tick w h)
    with st have s: "s = loop w h t" by simp
    with Suc.prems(3) have i: "i < length (circles t)" by (simp add: loop_length)
    with Suc.prems(4) s obtain d where d: "before_update w h (circles t) i = Some d"
        and c: "c = fst (update 1 d)"
      by (auto simp: loop_nth)
    from d obtain c0 where c0: "circles t ! i = Some c0" by (rule before_update_Some)
    note f = before_update_fields [OF c0 d]
    show ?thesis
    proof (cases "info_r c0 \<le> 0")
      case True
      from Suc.IH [OF m(2) t i c0 True] have "\<not> 0 < strength c0" and "\<exists>j<m. decay_tick acts j i"
        by simp_all
      then show ?thesis using c f(1) less_Suc_eq by (auto simp: update_fields)
    next
      case False
      with Suc.prems(5) c f(2) have k: "collided d" "\<not> 0 < strength d"
          and r: "info_r c = max (info_r c0 - 1) 0"
        by (auto simp: update_fields split: if_splits)
      from k(2) f(1) c have n: "\<not> 0 < strength c0" "strength c = strength c0"
        by (simp_all add: update_fields)
      from r False have "info_r c < info_r c0" by simp
      with r n(1) Tick t i c0 Suc.prems(4) s have "decay_tick acts m i"
        by (simp add: decay_tick_def)
      with n show ?thesis by auto
    qed
  qed
qed

lemma decay_state_spawn:
  assumes "decay_state s" and "createNewCircle x y rad str rnd1 rnd2 s = Some s'" and "0 \<le> str"
  shows "decay_state s'"
proof -
  from assms(2) obtain c where c: "0 < rad" "circles s' = circles s @ [Some c]"
      "info_r c = rad" "strength c = str"
    by (rule createNewCircle_Some)
  show ?thesis
    unfolding decay_state_def
  proof (intro allI impI)
    fix i assume "i < length (circles s')"
    then have "i < length (circles s) \<or> i = length (circles s)" using c(2) by auto
    then show "case circles s' ! i of None \<Rightarrow> True
      | Some c \<Rightarrow> 0 \<le> strength c \<and> (0 < info_r c \<or> info_r c = 0 \<and> collided c \<and> strength c = 0)"
    proof
      assume "i < length (circles s)"
      then show ?thesis using assms(1) c(2) by (simp add: decay_state_def nth_append)
    next
      assume "i = length (circles s)"
      then show ?thesis using c assms(3) by (simp add: nth_append)
    qed
  qed
qed

lemma decay_state_loop:
  assumes "decay_state s"
  shows "decay_state (loop w h s)"
  unfolding decay_state_def
proof (intro allI impI)
  fix i assume "i < length (circles (loop w h s))"
  then have i: "i < length (circles s)" by (simp add: loop_length)
  show "case circles (loop w h s) ! i of None \<Rightarrow> True
      | Some c \<Rightarrow> 0 \<le> strength c \<and> (0 < info_r c \<or> info_r c = 0 \<and> collided c \<and> strength c = 0)"
  proof (cases "circles (loop w h s) ! i")
    case None
    then show ?thesis by simp
  next
    case (Some c')
    with i obtain d where d: "before_update w h (circles s) i = Some d" and c': "c' = fst (update 1 d)"
      by (auto simp: loop_nth)
    from d obtain c where c: "circles s ! i = Some c" by (rule before_update_Some)
    note f = before_update_fields [OF c d]
    from assms i c have inv: "0 \<le> strength c" "0 < info_r c \<or> info_r c = 0 \<and> collided c \<and> strength c = 0"
      by (auto simp: decay_state_def)
    from inv(2) f(2,6,7) have r: "0 < info_r d" by auto
    from inv(1) f(1) have st: "0 \<le> strength d" by simp
    show ?thesis
    proof (cases "collided d \<and> \<not> 0 < strength d")
      case True
      with st have "strength d = 0" by simp
      with True r Some c' show ?thesis by (auto simp: update_fields max_def)
    next
      case False
      with r st Some c' show ?thesis by (auto simp: update_fields)
    qed
  qed
qed

lemma decay_state_run:
  "decay_state s \<Longrightarrow> run s acts = Some t \<Longrightarrow> \<forall>a\<in>set acts. spawn_strength_nonneg a \<Longrightarrow> decay_state t"
proof (induction acts arbitrary: s)
  case Nil
  then show ?case by simp
next
  case (Cons a acts)
  from Cons.prems(2) obtain s' where s': "step s a = Some s'" and r: "run s' acts = Some t"
    by (auto split: option.splits)
  have "decay_state s'"
  proof (cases a)
    case (Spawn x y rad str rnd1 rnd2)
    with Cons.prems(3) have "0 \<le> str" by (simp add: spawn_strength_nonneg_def)
    with Cons.prems(1) s' Spawn show ?thesis by (auto intro: decay_state_spawn)
  next
    case (Tick w h)
    with s' Cons.prems(1) show ?thesis by (auto intro: decay_state_loop)
  qed
  with Cons.IH r Cons.prems(3) show ?case by simp
qed

lemma decay_state_empty: "decay_state empty_playground"
  by (simp add: decay_state_def empty_playground_def)

section \<open>Properties\<close>

subsection \<open>Ball collisions\<close>

text \<open>
  C1. After \<open>checkForBallCollisions\<close> the array has the same slots, and the circle at a
  filled index \<open>i\<close> differs from the one before only in its flag: \<open>collided\<close> is true
  if and only if it was true before or some other index \<open>j \<noteq> i\<close> holds a circle whose
  centre is at a distance strictly less than the sum of the two radii. Both circles of an
  overlapping pair are flagged by the same pass, a distance equal to the sum of the radii
  flags nothing, and a circle is not compared with itself.
\<close>

theorem ball_collision_pass_flags:
  assumes "i < length (circles s)" and "circles s ! i = Some c"
  shows "length (circles (checkForBallCollisions s)) = length (circles s) \<and>
         (\<exists>c'. circles (checkForBallCollisions s) ! i = Some c' \<and>
               c' = c\<lparr>collided := collided c'\<rparr> \<and>
               (collided c' \<longleftrightarrow>
                  collided c \<or>
                  (\<exists>j<length (circles s). j \<noteq> i \<and>
                     (\<exists>d. circles s ! j = Some d \<and> getDistance c d < info_r c + info_r d))))"
proof -
  have "touches (circles s) i c \<longleftrightarrow>
          (\<exists>j<length (circles s). j \<noteq> i \<and>
             (\<exists>d. circles s ! j = Some d \<and> getDistance c d < info_r c + info_r d))"
    by (auto simp: touches_def split: option.splits)
  then show ?thesis
    using assms by (simp add: checkForBallCollisions_nth checkForBallCollisions_fields)
qed

text \<open>
  Three circles of radius 5 on a line, at 0, 6 and 16. The first two overlap and are both
  flagged. The third is at distance 10 from the second, exactly the sum of the radii,
  and at distance 0 from itself: it is not flagged.
\<close>

theorem ball_collision_pass_flags_witness:
  "map_option collided (circles (checkForBallCollisions three_balls) ! 0) = Some True \<and>
   map_option collided (circles (checkForBallCollisions three_balls) ! 1) = Some True \<and>
   map_option collided (circles (checkForBallCollisions three_balls) ! 2) = Some False \<and>
   getDistance (ball 1 6 0 5) (ball 2 16 0 5) = info_r (ball 1 6 0 5) + info_r (ball 2 16 0 5)"
proof -
  have l: "(0::nat) < length (circles three_balls)" "(1::nat) < length (circles three_balls)"
    "(2::nat) < length (circles three_balls)"
    by (simp_all add: three_balls_def)
  have n: "circles three_balls ! 0 = Some (ball 0 0 0 5)" "circles three_balls ! 1 = Some (ball 1 6 0 5)"
    "circles three_balls ! 2 = Some (ball 2 16 0 5)"
    by (simp_all add: three_balls_def)
  have t: "\<exists>j<length (circles three_balls). j \<noteq> 0 \<and>
             (\<exists>d. circles three_balls ! j = Some d \<and>
                  getDistance (ball 0 0 0 5) d < info_r (ball 0 0 0 5) + info_r d)"
    "\<exists>j<length (circles three_balls). j \<noteq> 1 \<and>
             (\<exists>d. circles three_balls ! j = Some d \<and>
                  getDistance (ball 1 6 0 5) d < info_r (ball 1 6 0 5) + info_r d)"
    "\<not> (\<exists>j<length (circles three_balls). j \<noteq> 2 \<and>
             (\<exists>d. circles three_balls ! j = Some d \<and>
                  getDistance (ball 2 16 0 5) d < info_r (ball 2 16 0 5) + info_r d))"
    by (simp_all add: three_balls_def ball_def Ex_less_Suc getDistance_less_iff)
  have f: "\<not> collided (ball 0 0 0 5)" "\<not> collided (ball 1 6 0 5)" "\<not> collided (ball 2 16 0 5)"
    by (simp_all add: ball_def)
  have d: "getDistance (ball 1 6 0 5) (ball 2 16 0 5) = info_r (ball 1 6 0 5) + info_r (ball 2 16 0 5)"
    by (simp add: getDistance_def ball_def)
  from ball_collision_pass_flags [OF l(1) n(1)] t(1) f(1)
  have 0: "map_option collided (circles (checkForBallCollisions three_balls) ! 0) = Some True"
    by auto
  from ball_collision_pass_flags [OF l(2) n(2)] t(2) f(2)
  have 1: "map_option collided (circles (checkForBallCollisions three_balls) ! 1) = Some True"
    by auto
  from ball_collision_pass_flags [OF l(3) n(3)] t(3) f(3)
  have 2: "map_option collided (circles (checkForBallCollisions three_balls) ! 2) = Some False"
    by auto
  from 0 1 2 d show ?thesis by simp
qed

text \<open>The same pass, computed by running the two loops.\<close>

lemma checkForBallCollisions_three_balls:
  "circles (checkForBallCollisions three_balls)
     = [Some ((ball 0 0 0 5)\<lparr>collided := True\<rparr>), Some ((ball 1 6 0 5)\<lparr>collided := True\<rparr>),
        Some (ball 2 16 0 5)]"
  by (simp add: checkForBallCollisions_def three_balls_def for_in_def ball_row_def ball_pair_def
      set_collided_def getDistance_less_iff ball_def upt_rec)

subsection \<open>Walls\<close>

text \<open>
  C7. A circle that reaches beyond the right edge, \<open>info.cx + info.r > clientWidth\<close>, has
  a velocity \<open>x \<le> 0\<close> after \<open>checkForWallCollision\<close>, and that is the circle the array
  holds at its index after \<open>checkForWallCollisions\<close>.
\<close>

theorem right_wall_turns_velocity:
  assumes "i < length (circles s)" and "circles s ! i = Some c"
    and "info_cx c + info_r c > clientWidth"
  shows "velocity_x (checkForWallCollision clientWidth clientHeight c) \<le> 0 \<and>
         circles (checkForWallCollisions clientWidth clientHeight s) ! i
           = Some (checkForWallCollision clientWidth clientHeight c)"
  using assms by (simp add: checkForWallCollisions_nth checkForWallCollision_def Let_def)

theorem right_wall_turns_velocity_witness:
  "info_cx corner_circle + info_r corner_circle > 100 \<and>
   velocity_x corner_circle = 2 \<and>
   map_option velocity_x (circles (checkForWallCollisions 100 100 corner_playground) ! 0) = Some (- 2)"
proof -
  have h: "(0::nat) < length (circles corner_playground)" "circles corner_playground ! 0 = Some corner_circle"
    "info_cx corner_circle + info_r corner_circle > 100"
    by (simp_all add: corner_playground_def corner_circle_def)
  show ?thesis
    using right_wall_turns_velocity [OF h, of 100] h(3)
    by (simp add: checkForWallCollision_def corner_circle_def)
qed

text \<open>
  A circle wider than the page reaches beyond both the left and the right edge. The test
  of the left edge is the \<open>else\<close> branch of the test of the right edge: the velocity is
  turned to the left only.
\<close>

theorem wall_checks_left_counterexample:
  "info_cx wide_circle - info_r wide_circle < 0 \<and>
   info_cx wide_circle + info_r wide_circle > 8 \<and>
   velocity_x wide_circle = 1 \<and>
   velocity_x (checkForWallCollision 8 100 wide_circle) = - 1 \<and>
   \<not> 0 \<le> velocity_x (checkForWallCollision 8 100 wide_circle)"
  by (simp add: wide_circle_def checkForWallCollision_def)

text \<open>
  C8, amended. The two axes are checked independently of each other, and both can be
  corrected in one call. On each axis the far edge (right, bottom) is tested first and
  the near edge (left, top) only when the far edge is not crossed: crossing the far edge
  makes the velocity component \<open>-|v|\<close>, crossing the near edge alone makes it \<open>|v|\<close>, and
  crossing neither leaves it unchanged. No field but the two velocity components changes.
\<close>

theorem wall_checks_by_axis:
  fixes c :: circle and clientWidth clientHeight :: real
  defines "c' \<equiv> checkForWallCollision clientWidth clientHeight c"
  shows "(info_cx c + info_r c > clientWidth \<longrightarrow> velocity_x c' = - \<bar>velocity_x c\<bar>) \<and>
         (\<not> info_cx c + info_r c > clientWidth \<and> info_cx c - info_r c < 0 \<longrightarrow>
            velocity_x c' = \<bar>velocity_x c\<bar>) \<and>
         (\<not> info_cx c + info_r c > clientWidth \<and> \<not> info_cx c - info_r c < 0 \<longrightarrow>
            velocity_x c' = velocity_x c) \<and>
         (info_cy c + info_r c > clientHeight \<longrightarrow> velocity_y c' = - \<bar>velocity_y c\<bar>) \<and>
         (\<not> info_cy c + info_r c > clientHeight \<and> info_cy c - info_r c < 0 \<longrightarrow>
            velocity_y c' = \<bar>velocity_y c\<bar>) \<and>
         (\<not> info_cy c + info_r c > clientHeight \<and> \<not> info_cy c - info_r c < 0 \<longrightarrow>
            velocity_y c' = velocity_y c) \<and>
         c'\<lparr>velocity_x := velocity_x c, velocity_y := velocity_y c\<rparr> = c"
  unfolding c'_def by (simp add: checkForWallCollision_def Let_def)

theorem wall_checks_by_axis_witness:
  "info_cx corner_circle + info_r corner_circle > 100 \<and>
   info_cy corner_circle - info_r corner_circle < 0 \<and>
   velocity_x (checkForWallCollision 100 100 corner_circle) = - 2 \<and>
   velocity_y (checkForWallCollision 100 100 corner_circle) = 1"
  using wall_checks_by_axis [where c = corner_circle and clientWidth = 100 and clientHeight = 100]
  by (simp add: corner_circle_def)

text \<open>
  C10. \<open>checkForWallCollision\<close> is idempotent for a fixed page size, and so is the loop
  \<open>checkForWallCollisions\<close> over the array.
\<close>

theorem wall_check_idempotent:
  "checkForWallCollision clientWidth clientHeight (checkForWallCollision clientWidth clientHeight c)
     = checkForWallCollision clientWidth clientHeight c \<and>
   checkForWallCollisions clientWidth clientHeight (checkForWallCollisions clientWidth clientHeight s)
     = checkForWallCollisions clientWidth clientHeight s"
proof
  show one: "checkForWallCollision clientWidth clientHeight (checkForWallCollision clientWidth clientHeight c)
     = checkForWallCollision clientWidth clientHeight c" for c
    by (cases "info_cx c + info_r c > clientWidth"; cases "info_cx c - info_r c < 0";
        cases "info_cy c + info_r c > clientHeight"; cases "info_cy c - info_r c < 0")
      (simp_all add: checkForWallCollision_def)
  let ?t = "checkForWallCollisions clientWidth clientHeight s"
  have "circles (checkForWallCollisions clientWidth clientHeight ?t) = circles ?t"
  proof (rule nth_equalityI)
    show "length (circles (checkForWallCollisions clientWidth clientHeight ?t)) = length (circles ?t)"
      by (simp add: checkForWallCollisions_fields)
    fix i assume "i < length (circles (checkForWallCollisions clientWidth clientHeight ?t))"
    then have i: "i < length (circles s)" by (simp add: checkForWallCollisions_fields)
    then show "circles (checkForWallCollisions clientWidth clientHeight ?t) ! i = circles ?t ! i"
      by (cases "circles s ! i") (simp_all add: checkForWallCollisions_nth checkForWallCollisions_fields one)
  qed
  then show "checkForWallCollisions clientWidth clientHeight ?t = ?t"
    by (simp add: playground.equality checkForWallCollisions_fields)
qed


subsection \<open>The velocity of a new circle\<close>




subsection \<open>Strength\<close>

text \<open>
  C3. Take a circle that is in the array before and after a tick, and let \<open>d\<close> be the
  circle when its \<open>update\<close> runs. Until then the tick has not changed its strength, and
  its flag is set if and only if it was set before the tick or it overlaps another circle.
  The strength after the tick is never larger; it is smaller by exactly 1, and the flag is
  cleared, when the flag is set and the strength is \<open>> 0\<close> as \<open>update\<close> runs, and it is
  unchanged otherwise. The flag is a boolean: the number of overlaps plays no part.
\<close>

theorem strength_per_tick:
  assumes "i < length (circles s)" and "circles s ! i = Some c"
    and "circles (loop w h s) ! i = Some c'"
  shows "\<exists>d. circles (checkForCollisions w h s) ! i = Some d \<and>
           strength d = strength c \<and>
           (collided d \<longleftrightarrow> collided c \<or> touches (circles s) i c) \<and>
           c' = fst (update 1 d) \<and>
           strength c' \<le> strength c \<and>
           (collided d \<and> strength d > 0 \<longrightarrow> strength c' = strength c - 1 \<and> \<not> collided c') \<and>
           (\<not> (collided d \<and> strength d > 0) \<longrightarrow> strength c' = strength c)"
proof -
  from assms(1,3) obtain d where d: "before_update w h (circles s) i = Some d" and c': "c' = fst (update 1 d)"
    by (auto simp: loop_nth)
  note f = before_update_fields [OF assms(2) d]
  show ?thesis
    using assms(1) d c' f(1,6) by (simp add: checkForCollisions_nth update_fields)
qed

theorem strength_per_tick_witness:
  "circles (loop 100 100 mixed) ! 1 = Some (still 1 False 0 60 60 5) \<and>
   strength (still 1 False 0 60 60 5) = strength (still 1 False 1 60 60 5) - 1 \<and>
   touches (circles mixed) 1 (still 1 False 1 60 60 5)"
proof -
  have h: "(1::nat) < length (circles mixed)" "circles mixed ! 1 = Some (still 1 False 1 60 60 5)"
    by (simp_all add: mixed_def)
  have l: "circles (loop 100 100 mixed) ! 1 = Some (still 1 False 0 60 60 5)"
    by (simp add: loop_mixed mixed_after_def)
  have t: "touches (circles mixed) 1 (still 1 False 1 60 60 5)"
    by (simp add: touches_def mixed_def still_def Ex_less_Suc getDistance_less_iff)
  show ?thesis
    using strength_per_tick [OF h l] l t by (auto simp: still_def)
qed

subsection \<open>The order of the phases\<close>

text \<open>
  C5. A tick is the detection of ball collisions, then the deletions, then the wall
  checks, then the updates. The order shows in the state: the effects of a tick are the
  removals and \<open>trash\<close> sounds of the circles the detection left flagged with no radius,
  followed by the sounds of the updates of the remaining circles; the detection changes
  neither strength nor radius; the deletion of a circle depends on the flag the detection
  of this very tick gave it; and a circle that is still there after the tick has been
  moved by the velocity that the wall check left, and has lost strength or radius in
  \<open>update\<close> only.
\<close>

theorem tick_phase_order:
  assumes "i < length (circles s)" and "circles s ! i = Some c"
  shows "loop w h s
           = updatePositions (checkForWallCollisions w h (handleDeletions (checkForBallCollisions s))) \<and>
         effects (loop w h s)
           = effects s @ concat (map trash_events (circles (checkForBallCollisions s)))
               @ concat (map update_events (circles (checkForCollisions w h s))) \<and>
         (\<exists>d. circles (checkForBallCollisions s) ! i = Some d \<and>
               strength d = strength c \<and> info_r d = info_r c) \<and>
         (circles (handleDeletions (checkForBallCollisions s)) ! i = None
            \<longleftrightarrow> (collided c \<or> touches (circles s) i c) \<and> info_r c \<le> 0) \<and>
         (\<forall>c'. circles (loop w h s) ! i = Some c' \<longrightarrow>
            (\<exists>d. circles (checkForCollisions w h s) ! i = Some d \<and>
                  d = checkForWallCollision w h (c\<lparr>collided := collided c \<or> touches (circles s) i c\<rparr>) \<and>
                  strength d = strength c \<and> info_r d = info_r c \<and>
                  c' = fst (update 1 d) \<and>
                  info_cx c' = info_cx c + velocity_x d * 1 \<and>
                  info_cy c' = info_cy c + velocity_y d * 1))"
proof (intro conjI allI impI)
  show "loop w h s
           = updatePositions (checkForWallCollisions w h (handleDeletions (checkForBallCollisions s)))"
    by (simp add: loop_def checkForCollisions_def)
  show "effects (loop w h s)
           = effects s @ concat (map trash_events (circles (checkForBallCollisions s)))
               @ concat (map update_events (circles (checkForCollisions w h s)))"
    by (rule loop_effects)
  show "\<exists>d. circles (checkForBallCollisions s) ! i = Some d \<and>
               strength d = strength c \<and> info_r d = info_r c"
    using assms by (simp add: checkForBallCollisions_nth)
  show "circles (handleDeletions (checkForBallCollisions s)) ! i = None
            \<longleftrightarrow> (collided c \<or> touches (circles s) i c) \<and> info_r c \<le> 0"
    using assms by (simp add: handleDeletions_nth checkForBallCollisions_nth checkForBallCollisions_fields)
next
  fix c' assume l: "circles (loop w h s) ! i = Some c'"
  with assms(1) obtain d where d: "before_update w h (circles s) i = Some d" and c': "c' = fst (update 1 d)"
    by (auto simp: loop_nth)
  from d assms(2) have e: "d = checkForWallCollision w h (c\<lparr>collided := collided c \<or> touches (circles s) i c\<rparr>)"
    by (auto simp: before_update_def split: if_splits)
  note f = before_update_fields [OF assms(2) d]
  show "\<exists>d. circles (checkForCollisions w h s) ! i = Some d \<and>
                  d = checkForWallCollision w h (c\<lparr>collided := collided c \<or> touches (circles s) i c\<rparr>) \<and>
                  strength d = strength c \<and> info_r d = info_r c \<and>
                  c' = fst (update 1 d) \<and>
                  info_cx c' = info_cx c + velocity_x d * 1 \<and>
                  info_cy c' = info_cy c + velocity_y d * 1"
    using assms(1) d c' e f(1-4) by (simp add: checkForCollisions_nth update_fields)
qed

theorem tick_phase_order_witness:
  "loop 100 100 mixed = mixed_after \<and>
   effects mixed_after = [RemoveChild 0, Play ''trash'', Play ''zee-ow'', Play ''zee-ow''] \<and>
   circles (checkForBallCollisions mixed) ! 1 = Some (still 1 True 1 60 60 5) \<and>
   circles mixed_after ! 1 = Some (still 1 False 0 60 60 5)"
proof -
  have h: "(1::nat) < length (circles mixed)" "circles mixed ! 1 = Some (still 1 False 1 60 60 5)"
    by (simp_all add: mixed_def)
  have t: "touches (circles mixed) 1 (still 1 False 1 60 60 5)"
    by (simp add: touches_def mixed_def still_def Ex_less_Suc getDistance_less_iff)
  have b: "circles (checkForBallCollisions mixed) ! 1 = Some (still 1 True 1 60 60 5)"
    using h t by (simp add: checkForBallCollisions_nth still_def)
  show ?thesis
    using tick_phase_order [OF h, of 100 100] loop_mixed b
    by (simp add: mixed_after_def)
qed

subsection \<open>Deletion\<close>

text \<open>
  The two small circles of \<open>pair_acts\<close> overlap in the first tick and shrink to radius 0.
  In the second tick neither overlaps any circle (their distance 1 is not less than the sum
  0 of their radii), and both are deleted.
\<close>

theorem lingering_counterexample:
  "run empty_playground (take 4 pair_acts) = Some pair_decayed \<and>
   circles pair_decayed ! 1 = Some (still 1 True 0 80 80 0) \<and>
   info_r (still 1 True 0 80 80 0) = 0 \<and>
   \<not> touches (circles pair_decayed) 1 (still 1 True 0 80 80 0) \<and>
   circles (loop 100 100 pair_decayed) ! 1 = None"
  by (simp add: run_pair_decayed loop_pair_decayed)
    (simp add: pair_decayed_def pair_reaped_def touches_def still_def Ex_less_Suc getDistance_less_iff)

text \<open>
  C2, amended. \<open>handleDeletions\<close> removes a circle if and only if its flag is set and its
  radius is \<open>\<le> 0\<close>, and adds the removal of its element and the \<open>trash\<close> sound to the
  effects. Within a tick the flag is set if it was set before the tick or the circle
  overlaps another one, so a tick deletes a circle if and only if one of the two holds
  and the radius is \<open>\<le> 0\<close>. A circle comes out of a tick still in the array, with a clear
  flag and the same radius and strength, if and only if its flag was clear and it overlaps
  no other circle. A circle whose radius shrank in a tick keeps its flag, and if the radius
  is then \<open>\<le> 0\<close> the next tick deletes it, whatever it overlaps.
\<close>

theorem reap_flag_and_radius:
  assumes "i < length (circles s)" and "circles s ! i = Some c"
  shows "circles (handleDeletions s) ! i = (if collided c \<and> info_r c \<le> 0 then None else Some c) \<and>
         effects (handleDeletions s) = effects s @ concat (map trash_events (circles s)) \<and>
         (circles (loop w h s) ! i = None
            \<longleftrightarrow> (collided c \<or> touches (circles s) i c) \<and> info_r c \<le> 0) \<and>
         ((\<exists>c'. circles (loop w h s) ! i = Some c' \<and> \<not> collided c' \<and>
                info_r c' = info_r c \<and> strength c' = strength c)
            \<longleftrightarrow> \<not> collided c \<and> \<not> touches (circles s) i c) \<and>
         (\<forall>c'. circles (loop w h s) ! i = Some c' \<and> info_r c' < info_r c \<longrightarrow>
            collided c' \<and> (info_r c' \<le> 0 \<longrightarrow> circles (loop w' h' (loop w h s)) ! i = None))"
proof -
  have 1: "circles (handleDeletions s) ! i = (if collided c \<and> info_r c \<le> 0 then None else Some c)"
    using assms by (simp add: handleDeletions_nth)
  have 2: "effects (handleDeletions s) = effects s @ concat (map trash_events (circles s))"
    by (rule handleDeletions_effects)
  have 3: "circles (loop w h s) ! i = None \<longleftrightarrow> (collided c \<or> touches (circles s) i c) \<and> info_r c \<le> 0"
    using assms by (rule loop_None_iff)
  have 4: "(\<exists>c'. circles (loop w h s) ! i = Some c' \<and> \<not> collided c' \<and>
                info_r c' = info_r c \<and> strength c' = strength c)
            \<longleftrightarrow> \<not> collided c \<and> \<not> touches (circles s) i c"
  proof
    assume "\<not> collided c \<and> \<not> touches (circles s) i c"
    then show "\<exists>c'. circles (loop w h s) ! i = Some c' \<and> \<not> collided c' \<and>
                  info_r c' = info_r c \<and> strength c' = strength c"
      using assms by (simp add: loop_nth before_update_def update_fields checkForWallCollision_fields)
  next
    assume "\<exists>c'. circles (loop w h s) ! i = Some c' \<and> \<not> collided c' \<and>
                  info_r c' = info_r c \<and> strength c' = strength c"
    then obtain c' where a: "circles (loop w h s) ! i = Some c'" "\<not> collided c'"
        "strength c' = strength c"
      by blast
    with assms(1) obtain d where d: "before_update w h (circles s) i = Some d"
        and c': "c' = fst (update 1 d)"
      by (auto simp: loop_nth)
    note f = before_update_fields [OF assms(2) d]
    from a(2,3) c' f(1) have "\<not> collided d"
      by (auto simp: update_fields split: if_splits)
    with f(6) show "\<not> collided c \<and> \<not> touches (circles s) i c" by simp
  qed
  have 5: "collided c' \<and> (info_r c' \<le> 0 \<longrightarrow> circles (loop w' h' (loop w h s)) ! i = None)"
    if a: "circles (loop w h s) ! i = Some c' \<and> info_r c' < info_r c" for c'
  proof -
    from a assms(1) obtain d where d: "before_update w h (circles s) i = Some d"
        and c': "c' = fst (update 1 d)"
      by (auto simp: loop_nth)
    note f = before_update_fields [OF assms(2) d]
    from a c' f(2) have k: "collided c'"
      by (auto simp: update_fields split: if_splits)
    have "circles (loop w' h' (loop w h s)) ! i = None" if "info_r c' \<le> 0"
      using that k a assms(1) loop_None_iff [of i "loop w h s" c' w' h'] by (simp add: loop_length)
    with k show ?thesis by simp
  qed
  from 1 2 3 4 5 show ?thesis by blast
qed

theorem reap_flag_and_radius_witness:
  "circles (handleDeletions pair_decayed) ! 1 = None \<and>
   circles (loop 100 100 pair_spawned) ! 0 = Some (still 0 False 1 50 50 10) \<and>
   \<not> touches (circles pair_spawned) 0 (still 0 False 1 50 50 10) \<and>
   circles (loop 100 100 pair_spawned) ! 1 = Some (still 1 True 0 80 80 0) \<and>
   circles (loop 100 100 (loop 100 100 pair_spawned)) ! 1 = None"
proof -
  have a: "(1::nat) < length (circles pair_decayed)" "circles pair_decayed ! 1 = Some (still 1 True 0 80 80 0)"
    by (simp_all add: pair_decayed_def)
  have b: "(1::nat) < length (circles pair_spawned)" "circles pair_spawned ! 1 = Some (still 1 False 0 80 80 1)"
    by (simp_all add: pair_spawned_def)
  have z: "(0::nat) < length (circles pair_spawned)" "circles pair_spawned ! 0 = Some (still 0 False 1 50 50 10)"
    by (simp_all add: pair_spawned_def)
  have l: "circles (loop 100 100 pair_spawned) ! 1 = Some (still 1 True 0 80 80 0)"
    "circles (loop 100 100 pair_spawned) ! 0 = Some (still 0 False 1 50 50 10)"
    by (simp_all add: loop_pair_spawned pair_decayed_def)
  have r: "info_r (still 1 True 0 80 80 0) < info_r (still 1 False 0 80 80 1)"
    "info_r (still 1 True 0 80 80 0) \<le> 0" "collided (still 1 True 0 80 80 0)"
    "\<not> collided (still 0 False 1 50 50 10)"
    by (simp_all add: still_def)
  from reap_flag_and_radius [OF a, of 100 100 100 100] r
  have 1: "circles (handleDeletions pair_decayed) ! 1 = None" by simp
  from reap_flag_and_radius [OF b, of 100 100 100 100] l(1) r
  have 2: "circles (loop 100 100 (loop 100 100 pair_spawned)) ! 1 = None" by blast
  from reap_flag_and_radius [OF z, of 100 100 100 100] l(2) r(4)
  have 3: "\<not> touches (circles pair_spawned) 0 (still 0 False 1 50 50 10)" by blast
  from 1 2 3 l show ?thesis by simp
qed

subsection \<open>Between ticks\<close>

text \<open>
  After the first tick of \<open>pair_acts\<close> the array holds a circle of radius 0.
\<close>

theorem radius_zero_counterexample:
  "run empty_playground (take 4 pair_acts) = Some pair_decayed \<and>
   circles pair_decayed ! 1 = Some (still 1 True 0 80 80 0) \<and>
   \<not> 0 < info_r (still 1 True 0 80 80 0)"
  by (simp add: run_pair_decayed) (simp add: pair_decayed_def still_def)

text \<open>
  C4, amended. After any events that create circles with a strength \<open>\<ge> 0\<close> (and a radius
  \<open>> 0\<close>, or \<open>run\<close> is \<open>None\<close>), every circle of the array has a strength \<open>\<ge> 0\<close> and a
  radius \<open>> 0\<close>, or else the radius 0 with its flag set and the strength 0. The next tick
  deletes a circle of the array if and only if its radius is 0: a circle at radius 0 is in
  the array between two ticks and no longer.
\<close>

theorem live_circles_between_ticks:
  assumes "run empty_playground acts = Some s" and "\<forall>a\<in>set acts. spawn_strength_nonneg a"
    and "i < length (circles s)" and "circles s ! i = Some c"
  shows "0 \<le> strength c \<and>
         (0 < info_r c \<or> info_r c = 0 \<and> collided c \<and> strength c = 0) \<and>
         (circles (loop w h s) ! i = None \<longleftrightarrow> info_r c = 0)"
proof -
  have "decay_state s" using decay_state_empty assms(1,2) by (rule decay_state_run)
  with assms(3,4) have inv: "0 \<le> strength c"
      "0 < info_r c \<or> info_r c = 0 \<and> collided c \<and> strength c = 0"
    by (auto simp: decay_state_def)
  from inv(2) have "circles (loop w h s) ! i = None \<longleftrightarrow> info_r c = 0"
    using loop_None_iff [OF assms(3,4), of w h] by auto
  with inv show ?thesis by simp
qed

theorem live_circles_between_ticks_witness:
  "run empty_playground (take 4 pair_acts) = Some pair_decayed \<and>
   circles pair_decayed ! 0 = Some (still 0 False 1 50 50 10) \<and>
   0 < info_r (still 0 False 1 50 50 10) \<and>
   circles (loop 100 100 pair_decayed) ! 0 = Some (still 0 False 1 50 50 10) \<and>
   circles pair_decayed ! 1 = Some (still 1 True 0 80 80 0) \<and>
   info_r (still 1 True 0 80 80 0) = 0 \<and> collided (still 1 True 0 80 80 0) \<and>
   strength (still 1 True 0 80 80 0) = 0 \<and>
   circles (loop 100 100 pair_decayed) ! 1 = None"
proof -
  have h: "(1::nat) < length (circles pair_decayed)" "circles pair_decayed ! 1 = Some (still 1 True 0 80 80 0)"
    by (simp_all add: pair_decayed_def)
  have g: "(0::nat) < length (circles pair_decayed)" "circles pair_decayed ! 0 = Some (still 0 False 1 50 50 10)"
    by (simp_all add: pair_decayed_def)
  have v: "\<not> 0 < info_r (still 1 True 0 80 80 0)" "0 < info_r (still 0 False 1 50 50 10)"
    "\<not> collided (still 0 False 1 50 50 10)"
    by (simp_all add: still_def)
  have l: "circles (loop 100 100 pair_decayed) ! 0 = Some (still 0 False 1 50 50 10)"
    by (simp add: loop_pair_decayed pair_reaped_def)
  from live_circles_between_ticks [OF run_pair_decayed pair_acts_nonneg h, of 100 100] v(1)
  have 1: "info_r (still 1 True 0 80 80 0) = 0" "collided (still 1 True 0 80 80 0)"
    "strength (still 1 True 0 80 80 0) = 0" "circles (loop 100 100 pair_decayed) ! 1 = None"
    by auto
  from live_circles_between_ticks [OF run_pair_decayed pair_acts_nonneg g, of 100 100] v(2,3)
  have 2: "0 < info_r (still 0 False 1 50 50 10)" by auto
  from 1 2 l run_pair_decayed h(2) g(2) show ?thesis by simp
qed

text \<open>
  C6. Let the events create circles with a radius \<open>> 0\<close> only (\<open>run\<close> is not \<open>None\<close>). A
  circle that a tick deletes has no strength left when that tick starts (not \<open>> 0\<close>; exactly
  0 when every circle was created with a strength \<open>\<ge> 0\<close>), and an earlier tick was a decay
  tick for it.
\<close>

theorem reaped_after_decay:
  assumes "k < length acts" and "acts ! k = Tick w h"
    and "run empty_playground (take k acts) = Some s"
    and "i < length (circles s)" and "circles s ! i = Some c"
    and "circles (loop w h s) ! i = None"
  shows "\<not> 0 < strength c \<and> (\<exists>j<k. decay_tick acts j i) \<and>
         ((\<forall>a\<in>set (take k acts). spawn_strength_nonneg a) \<longrightarrow> strength c = 0)"
proof -
  from assms(4-6) have r: "info_r c \<le> 0" by (simp add: loop_None_iff)
  from assms(1) have "k \<le> length acts" by simp
  from decay_history [OF this assms(3-5) r]
  have a: "\<not> 0 < strength c" and b: "\<exists>j<k. decay_tick acts j i" by simp_all
  have "strength c = 0" if "\<forall>a\<in>set (take k acts). spawn_strength_nonneg a"
  proof -
    have "nonneg_state s" using nonneg_state_empty assms(3) that by (rule nonneg_state_run)
    with assms(4,5) have "0 \<le> strength c" by (auto simp: nonneg_state_def)
    with a show ?thesis by simp
  qed
  with a b show ?thesis by blast
qed

theorem reaped_after_decay_witness:
  "pair_acts ! 4 = Tick 100 100 \<and>
   run empty_playground (take 4 pair_acts) = Some pair_decayed \<and>
   circles pair_decayed ! 1 = Some (still 1 True 0 80 80 0) \<and>
   circles (loop 100 100 pair_decayed) ! 1 = None \<and>
   strength (still 1 True 0 80 80 0) = 0 \<and>
   (\<exists>j<4. decay_tick pair_acts j 1)"
proof -
  have h: "(4::nat) < length pair_acts" "pair_acts ! 4 = Tick 100 100"
    by (simp_all add: pair_acts_def)
  have g: "(1::nat) < length (circles pair_decayed)" "circles pair_decayed ! 1 = Some (still 1 True 0 80 80 0)"
    by (simp_all add: pair_decayed_def)
  have n: "circles (loop 100 100 pair_decayed) ! 1 = None"
    by (simp add: loop_pair_decayed pair_reaped_def)
  show ?thesis
    using reaped_after_decay [OF h run_pair_decayed g n] pair_acts_nonneg h(2) run_pair_decayed g(2) n
    by simp
qed

end
